theory Spec2Isabelle
  imports Main "HOL-Library.Word"
begin

unbundle bit_operations_syntax

section \<open>A client of the Kafka 0.x wire protocol: kafka/base.py\<close>

text \<open>
  The module is Python 2: a \<open>str\<close> is a string of bytes, integers are unbounded, and
  \<open>None\<close> orders below every integer. Byte strings are lists of 8-bit words, integers
  are \<open>int\<close>, an optional argument is an \<open>option\<close>, and every exception the code can
  let escape is a value of \<open>kafka_error\<close>, carried on the left of a sum.
\<close>

type_synonym byte = "8 word"
type_synonym bytes = "byte list"

datatype kafka_error =
    ConnectionFailure
  | OffsetOutOfRange
  | InvalidMessageCode
  | WrongPartitionCode
  | InvalidRetchSizeCode
  | UnknownError
  | InvalidOffset
  | IOError
  | StructError
  | IndexError
  | ValueError
  | UnicodeError
  | OtherError

definition error_codes :: "int \<Rightarrow> kafka_error" where
  \<comment> \<open>\<open>error_codes.get(error_code, UnknownError)\<close>\<close>
  "error_codes code =
     (if code = 1 then OffsetOutOfRange
      else if code = 2 then InvalidMessageCode
      else if code = 3 then WrongPartitionCode
      else if code = 4 then InvalidRetchSizeCode
      else UnknownError)"

definition PRODUCE_REQUEST :: int where "PRODUCE_REQUEST = 0"
definition FETCH_REQUEST :: int where "FETCH_REQUEST = 1"
definition OFFSETS_REQUEST :: int where "OFFSETS_REQUEST = 4"
definition MAGIC_BYTE :: int where "MAGIC_BYTE = 0"
definition LATEST_OFFSET :: int where "LATEST_OFFSET = - 1"
definition EARLIEST_OFFSET :: int where "EARLIEST_OFFSET = - 2"
definition DEFAULT_MAX_SIZE :: int where "DEFAULT_MAX_SIZE = 1024 * 1024"

subsection \<open>The struct module, for the formats the code uses\<close>

text \<open>
  \<open>be_bytes k v\<close> is the big-endian image of \<open>v\<close> on \<open>k\<close> bytes (two's complement for
  a negative \<open>v\<close>); \<open>be_decode\<close> reads a big-endian unsigned number. \<open>struct.pack\<close>
  raises \<open>struct.error\<close> for a number outside the range of its format code and for an
  argument that is not a number; \<open>struct.unpack\<close> raises it for a string of the
  wrong length.
\<close>

fun be_bytes :: "nat \<Rightarrow> int \<Rightarrow> bytes" where
  "be_bytes 0 v = []"
| "be_bytes (Suc k) v = be_bytes k (v div 256) @ [word_of_int v]"

definition be_decode :: "bytes \<Rightarrow> int" where
  "be_decode bs = foldl (\<lambda>a b. a * 256 + uint b) 0 bs"

definition pack_unsigned :: "nat \<Rightarrow> int \<Rightarrow> kafka_error + bytes" where
  "pack_unsigned k v = (if 0 \<le> v \<and> v < 256 ^ k then Inr (be_bytes k v) else Inl StructError)"

definition pack_signed :: "nat \<Rightarrow> int \<Rightarrow> kafka_error + bytes" where
  "pack_signed k v =
     (if - (256 ^ k div 2) \<le> v \<and> v < 256 ^ k div 2 then Inr (be_bytes k v) else Inl StructError)"

definition pack_B :: "int \<Rightarrow> kafka_error + bytes" where "pack_B = pack_unsigned 1"
definition pack_H :: "int \<Rightarrow> kafka_error + bytes" where "pack_H = pack_unsigned 2"
definition pack_I :: "int \<Rightarrow> kafka_error + bytes" where "pack_I = pack_unsigned 4"
definition pack_i :: "int \<Rightarrow> kafka_error + bytes" where "pack_i = pack_signed 4"
definition pack_q :: "int \<Rightarrow> kafka_error + bytes" where "pack_q = pack_signed 8"

definition pack_Q :: "int option \<Rightarrow> kafka_error + bytes" where
  \<comment> \<open>the one argument that can reach \<open>struct.pack\<close> as \<open>None\<close> is the fetch offset\<close>
  "pack_Q v = (case v of None \<Rightarrow> Inl StructError | Some n \<Rightarrow> pack_unsigned 8 n)"

definition pack_s :: "int \<Rightarrow> bytes \<Rightarrow> kafka_error + bytes" where
  \<comment> \<open>format \<open>'<n>s'\<close>, always used with \<open>n = len(s)\<close>\<close>
  "pack_s n s = Inr s"

definition unpack_unsigned :: "nat \<Rightarrow> bytes \<Rightarrow> kafka_error + int" where
  "unpack_unsigned k raw = (if length raw = k then Inr (be_decode raw) else Inl StructError)"

definition unpack_signed :: "nat \<Rightarrow> bytes \<Rightarrow> kafka_error + int" where
  "unpack_signed k raw =
     (if length raw = k
      then Inr (let v = be_decode raw in if v < 256 ^ k div 2 then v else v - 256 ^ k)
      else Inl StructError)"

definition err_bind :: "'e + 'a \<Rightarrow> ('a \<Rightarrow> 'e + 'b) \<Rightarrow> 'e + 'b" where
  "err_bind m f = (case m of Inl e \<Rightarrow> Inl e | Inr x \<Rightarrow> f x)"

subsection \<open>Request encoding\<close>

definition fetch_request ::
  "bytes \<Rightarrow> int option \<Rightarrow> int \<Rightarrow> int \<Rightarrow> kafka_error + (bytes \<times> bytes)" where
  \<comment> \<open>\<open>BaseKafka._fetch_request\<close>\<close>
  "fetch_request topic offset part max_size =
     (let topic_length = int (length topic);
          request_size = 2 + 2 + topic_length + 4 + 8 + 4
      in err_bind (pack_I request_size) (\<lambda>bin_request_size.
         err_bind (pack_H FETCH_REQUEST) (\<lambda>b_type.
         err_bind (pack_H topic_length) (\<lambda>b_len.
         err_bind (pack_s topic_length topic) (\<lambda>b_topic.
         err_bind (pack_I part) (\<lambda>b_part.
         err_bind (pack_Q offset) (\<lambda>b_off.
         err_bind (pack_I max_size) (\<lambda>b_max.
           Inr (bin_request_size, b_type @ b_len @ b_topic @ b_part @ b_off @ b_max)))))))))"

definition offsets_request ::
  "bytes \<Rightarrow> int \<Rightarrow> int \<Rightarrow> int \<Rightarrow> kafka_error + (bytes \<times> bytes)" where
  \<comment> \<open>\<open>BaseKafka._offsets_request\<close>\<close>
  "offsets_request topic time_val max_offsets part =
     (let offsets_request_size = 2 + 2 + int (length topic) + 4 + 8 + 4
      in err_bind (pack_I offsets_request_size) (\<lambda>bin_request_size.
         err_bind (pack_H OFFSETS_REQUEST) (\<lambda>b_type.
         err_bind (pack_H (int (length topic))) (\<lambda>b_len.
         err_bind (pack_s (int (length topic)) topic) (\<lambda>b_topic.
         err_bind (pack_I part) (\<lambda>b_part.
         err_bind (pack_q time_val) (\<lambda>b_time.
         err_bind (pack_I max_offsets) (\<lambda>b_max.
           Inr (bin_request_size, b_type @ b_len @ b_topic @ b_part @ b_time @ b_max)))))))))"

subsection \<open>Checksums\<close>

text \<open>
  \<open>binascii.crc32\<close> is the C library's CRC-32 (polynomial \<open>0xEDB88320\<close> in reflected
  form, register preset to all ones, result complemented); \<open>crc32\<close> below is that
  function, bit by bit. Python 2 returns it as a signed 32-bit integer.
\<close>

definition crc_poly :: "32 word" where
  "crc_poly = 0xEDB88320"

definition crc_shift :: "32 word \<Rightarrow> 32 word" where
  "crc_shift c = (if bit c 0 then drop_bit 1 c XOR crc_poly else drop_bit 1 c)"

definition crc_update :: "32 word \<Rightarrow> byte \<Rightarrow> 32 word" where
  "crc_update c b = (crc_shift ^^ 8) (c XOR ucast b)"

definition crc32 :: "bytes \<Rightarrow> 32 word" where
  "crc32 bs = foldl crc_update (- 1) bs XOR (- 1)"

definition binascii_crc32 :: "bytes \<Rightarrow> int" where
  "binascii_crc32 v = sint (crc32 v)"

definition compute_checksum :: "bytes \<Rightarrow> int" where
  \<comment> \<open>\<open>BaseKafka.compute_checksum\<close>\<close>
  "compute_checksum v = binascii_crc32 v"

subsection \<open>Encoding a produce request\<close>

definition encode_message :: "bytes \<Rightarrow> kafka_error + bytes" where
  \<comment> \<open>the body of the \<open>for message in messages\<close> loop of \<open>_produce_request\<close>\<close>
  "encode_message message =
     err_bind (pack_B MAGIC_BYTE) (\<lambda>b_magic.
     err_bind (pack_i (compute_checksum message)) (\<lambda>b_crc.
     err_bind (pack_s (int (length message)) message) (\<lambda>b_msg.
       let encoded_message = b_magic @ b_crc @ b_msg;
           message_size = int (length encoded_message)
       in err_bind (pack_i message_size) (\<lambda>b_size.
          err_bind (pack_s message_size encoded_message) (\<lambda>b_enc.
            Inr (b_size @ b_enc))))))"

fun encode_message_set :: "bytes list \<Rightarrow> kafka_error + bytes" where
  \<comment> \<open>the loop itself: what \<open>message_set_buffer.getvalue()\<close> holds after it\<close>
  "encode_message_set [] = Inr []"
| "encode_message_set (message # messages) =
     err_bind (encode_message message) (\<lambda>written.
     err_bind (encode_message_set messages) (\<lambda>rest. Inr (written @ rest)))"

definition produce_request :: "bytes \<Rightarrow> bytes list \<Rightarrow> int \<Rightarrow> kafka_error + bytes" where
  \<comment> \<open>\<open>BaseKafka._produce_request\<close>\<close>
  "produce_request topic messages part =
     err_bind (encode_message_set messages) (\<lambda>message_set.
     err_bind (pack_H PRODUCE_REQUEST) (\<lambda>b_type.
     err_bind (pack_H (int (length topic))) (\<lambda>b_len.
     err_bind (pack_s (int (length topic)) topic) (\<lambda>b_topic.
     err_bind (pack_I part) (\<lambda>b_part.
     err_bind (pack_I (int (length message_set))) (\<lambda>b_setlen.
     err_bind (pack_s (int (length message_set)) message_set) (\<lambda>b_set.
       let data = b_type @ b_len @ b_topic @ b_part @ b_setlen @ b_set;
           request_size = int (length data)
       in err_bind (pack_I request_size) (\<lambda>b_size.
          err_bind (pack_s request_size data) (\<lambda>b_data. Inr (b_size @ b_data))))))))))"

subsection \<open>Response buffers: cStringIO\<close>

text \<open>
  A \<open>StringIO\<close> is a string and a read position. \<open>read(n)\<close> returns at most \<open>n\<close>
  bytes from the position and advances it by what it returned; a negative \<open>n\<close> reads
  everything that is left. \<open>tell()\<close> is the position.
\<close>

record strio =
  sdata :: bytes
  spos :: nat

definition StringIO :: "bytes \<Rightarrow> strio" where
  "StringIO s = \<lparr>sdata = s, spos = 0\<rparr>"

definition sio_read :: "strio \<Rightarrow> int \<Rightarrow> bytes \<times> strio" where
  "sio_read b n =
     (let left = drop (spos b) (sdata b);
          chunk = (if n < 0 then left else take (nat n) left)
      in (chunk, b\<lparr>spos := spos b + length chunk\<rparr>))"

definition tell :: "strio \<Rightarrow> int" where
  "tell b = int (spos b)"

subsection \<open>Decoding responses\<close>

datatype msg_record =
    Rec2 int bytes         \<comment> \<open>the tuple \<open>(offset, payload)\<close>\<close>
  | Rec3 int bytes bool    \<comment> \<open>the tuple \<open>(offset, payload, corrupt)\<close>\<close>

text \<open>
  \<open>parse_loop\<close> is the \<open>while has_more\<close> loop of \<open>_parse_message_set\<close>; every
  \<open>break\<close> ends the list. \<open>self_include_corrupt\<close> is the attribute
  \<open>self.include_corrupt\<close> set by the constructor, \<open>include_corrupt\<close> the argument of
  the call. The three header reads are checked for length before they are unpacked, so
  \<open>struct.unpack\<close> cannot fail here.
\<close>

function parse_loop :: "int \<Rightarrow> bool \<Rightarrow> bool \<Rightarrow> strio \<Rightarrow> msg_record list" where
  "parse_loop start_offset self_include_corrupt include_corrupt message_buffer =
     (let offset = start_offset + tell message_buffer - 2;
          raw_message_length = fst (sio_read message_buffer 4);
          buf1 = snd (sio_read message_buffer 4)
      in if raw_message_length = [] then []
         else if length raw_message_length < 4 then []
         else
           let message_length = be_decode raw_message_length;
               raw_magic = fst (sio_read buf1 1);
               buf2 = snd (sio_read buf1 1)
           in if length raw_magic < 1 then []
              else
                let magic = be_decode raw_magic;
                    raw_checksum = fst (sio_read buf2 4);
                    buf3 = snd (sio_read buf2 4)
                in if length raw_checksum < 4 then []
                   else
                     let checksum = (let v = be_decode raw_checksum
                                     in if v < 2 ^ 31 then v else v - 2 ^ 32);
                         payload_length = message_length - 1 - 4;
                         payload = fst (sio_read buf3 payload_length);
                         buf4 = snd (sio_read buf3 payload_length)
                     in if int (length payload) < payload_length \<and> \<not> self_include_corrupt
                        then []
                        else
                          let actual_checksum = compute_checksum payload;
                              corrupt = (if magic \<noteq> MAGIC_BYTE then True
                                         else if checksum \<noteq> actual_checksum then True
                                         else False)
                          in (if include_corrupt then Rec3 offset payload corrupt
                              else Rec2 offset payload)
                             # parse_loop start_offset self_include_corrupt include_corrupt buf4)"
  by pat_completeness auto
termination
  by (relation "measure (\<lambda>(s, sic, ic, b). length (sdata b) - spos b)")
     (auto simp: sio_read_def Let_def split: if_splits)

declare parse_loop.simps [simp del]

definition parse_message_set :: "bool \<Rightarrow> int option \<Rightarrow> strio \<Rightarrow> bool \<Rightarrow> msg_record list" where
  \<comment> \<open>\<open>BaseKafka._parse_message_set\<close>, read to its end. With \<open>start_offset = None\<close> the
      first statement of the loop raises \<open>TypeError\<close>, which the bare \<open>except\<close>
      swallows: nothing is yielded.\<close>
  "parse_message_set self_include_corrupt start_offset message_buffer include_corrupt =
     (case start_offset of
        None \<Rightarrow> []
      | Some s \<Rightarrow> parse_loop s self_include_corrupt include_corrupt message_buffer)"

definition read_fetch_response ::
  "bool \<Rightarrow> int option \<Rightarrow> bool \<Rightarrow> strio \<Rightarrow> msg_record list" where
  \<comment> \<open>\<open>BaseKafka._read_fetch_response\<close> with \<open>callback = None\<close>; a \<open>StringIO\<close> object is
      always true\<close>
  "read_fetch_response self_include_corrupt start_offset include_corrupt message_buffer =
     parse_message_set self_include_corrupt start_offset message_buffer include_corrupt"

fun read_offsets :: "nat \<Rightarrow> strio \<Rightarrow> kafka_error + int list" where
  \<comment> \<open>the \<open>for i in range(offset_count)\<close> loop of \<open>_read_offset_response\<close>\<close>
  "read_offsets 0 data = Inr []"
| "read_offsets (Suc n) data =
     err_bind (unpack_unsigned 8 (fst (sio_read data 8))) (\<lambda>offset.
     err_bind (read_offsets n (snd (sio_read data 8))) (\<lambda>rest. Inr (offset # rest)))"

definition read_offset_response :: "strio \<Rightarrow> kafka_error + int list" where
  \<comment> \<open>\<open>BaseKafka._read_offset_response\<close> with \<open>callback = None\<close>\<close>
  "read_offset_response data =
     err_bind (unpack_unsigned 4 (fst (sio_read data 4))) (\<lambda>offset_count.
       read_offsets (nat offset_count) (snd (sio_read data 4)))"

definition read_response :: "bytes \<Rightarrow> kafka_error + strio" where
  \<comment> \<open>\<open>BaseKafka._read_response\<close>: the buffer handed to the callback, or the error raised\<close>
  "read_response data =
     (let response_buffer = StringIO data;
          raw_error_code = fst (sio_read response_buffer 2)
      in err_bind (unpack_unsigned 2 raw_error_code) (\<lambda>error_code.
           if error_code \<noteq> 0 then Inl (error_codes error_code)
           else Inr (snd (sio_read response_buffer 2))))"

subsection \<open>The connection and the clock\<close>

text \<open>
  \<open>_write\<close> and \<open>_read\<close> are abstract in \<open>BaseKafka\<close>. What the protocol code sees of
  one round trip (\<open>_write\<close> of the size, \<open>_write\<close> of the request, \<open>_read\<close> of four
  bytes, \<open>_read\<close> of the announced length) is either an exception or the string handed
  to \<open>_read_response\<close>. The world holds the server, which answers a request knowing
  everything that happened before, and the trace of what the client did to it:
  requests handed to the connection and calls of \<open>time.sleep\<close>.
\<close>

datatype reply = Raises kafka_error | Data bytes

datatype event = Request bytes bytes | Sleep nat

record world =
  server :: "event list \<Rightarrow> bytes \<Rightarrow> reply"
  trace :: "event list"
  now :: nat

definition exchange :: "world \<Rightarrow> bytes \<Rightarrow> bytes \<Rightarrow> (kafka_error + bytes) \<times> world" where
  "exchange w request_size request =
     (let w' = w\<lparr>trace := trace w @ [Request request_size request]\<rparr>
      in case server w (trace w) request of
           Raises e \<Rightarrow> (Inl e, w')
         | Data d \<Rightarrow> (Inr d, w'))"

definition sleep :: "nat \<Rightarrow> world \<Rightarrow> world" where
  "sleep seconds w = w\<lparr>trace := trace w @ [Sleep seconds]\<rparr>"

subsection \<open>The public calls\<close>

record kafka =
  k_host :: bytes
  k_port :: int
  k_max_size :: int
  k_include_corrupt :: bool

definition py_or :: "int option \<Rightarrow> int \<Rightarrow> int" where
  \<comment> \<open>\<open>x or d\<close> for a number or \<open>None\<close>\<close>
  "py_or x d = (case x of None \<Rightarrow> d | Some n \<Rightarrow> if n = 0 then d else n)"

definition encode_utf8 :: "bytes \<Rightarrow> kafka_error + bytes" where
  \<comment> \<open>\<open>topic.encode('utf-8')\<close> on a Python 2 \<open>str\<close>: the string is decoded as ASCII first\<close>
  "encode_utf8 s = (if \<forall>b \<in> set s. b < 128 then Inr s else Inl UnicodeError)"

definition kafka_init :: "bytes option \<Rightarrow> int option \<Rightarrow> int option \<Rightarrow> bool \<Rightarrow> kafka" where
  \<comment> \<open>\<open>BaseKafka.__init__\<close>\<close>
  "kafka_init host port max_size include_corrupt =
     \<lparr>k_host = (case host of None \<Rightarrow> map of_char ''localhost''
                 | Some h \<Rightarrow> if h = [] then map of_char ''localhost'' else h),
      k_port = py_or port 9092,
      k_max_size = py_or max_size DEFAULT_MAX_SIZE,
      k_include_corrupt = include_corrupt\<rparr>"

definition fetch ::
  "kafka \<Rightarrow> bytes \<Rightarrow> int option \<Rightarrow> int option \<Rightarrow> int option \<Rightarrow> bool \<Rightarrow> world
     \<Rightarrow> (kafka_error + msg_record list) \<times> world" where
  \<comment> \<open>\<open>BaseKafka.fetch\<close> with \<open>callback = None\<close>\<close>
  "fetch self topic offset part max_size include_corrupt w =
     (case encode_utf8 topic of
        Inl e \<Rightarrow> (Inl e, w)
      | Inr topic' \<Rightarrow>
          (case fetch_request topic' offset (py_or part 0) (py_or max_size (k_max_size self)) of
             Inl e \<Rightarrow> (Inl e, w)
           | Inr (fetch_request_size, request) \<Rightarrow>
               (case exchange w fetch_request_size request of
                  (Inl e, w') \<Rightarrow> (Inl e, w')
                | (Inr data, w') \<Rightarrow>
                    (case read_response data of
                       Inl e \<Rightarrow> (Inl e, w')
                     | Inr message_buffer \<Rightarrow>
                         (Inr (read_fetch_response (k_include_corrupt self) offset
                                 include_corrupt message_buffer), w')))))"

definition offsets ::
  "kafka \<Rightarrow> bytes \<Rightarrow> int \<Rightarrow> int \<Rightarrow> int option \<Rightarrow> world \<Rightarrow> (kafka_error + int list) \<times> world" where
  \<comment> \<open>\<open>BaseKafka.offsets\<close> with \<open>callback = None\<close>\<close>
  "offsets self topic time_val max_offsets part w =
     (case offsets_request topic time_val max_offsets (py_or part 0) of
        Inl e \<Rightarrow> (Inl e, w)
      | Inr (request_size, request) \<Rightarrow>
          (case exchange w request_size request of
             (Inl e, w') \<Rightarrow> (Inl e, w')
           | (Inr data, w') \<Rightarrow>
               (case read_response data of
                  Inl e \<Rightarrow> (Inl e, w')
                | Inr buf \<Rightarrow> (read_offset_response buf, w'))))"

subsection \<open>Partition\<close>

record partition_handle =
  p_kafka :: kafka
  p_topic :: bytes
  p_partition :: "int option"

definition first_of :: "int list \<Rightarrow> kafka_error + int" where
  \<comment> \<open>the subscript \<open>[0]\<close>\<close>
  "first_of xs = (case xs of [] \<Rightarrow> Inl IndexError | x # _ \<Rightarrow> Inr x)"

definition earliest_offset :: "partition_handle \<Rightarrow> world \<Rightarrow> (kafka_error + int) \<times> world" where
  "earliest_offset self w =
     (case offsets (p_kafka self) (p_topic self) EARLIEST_OFFSET 1 (p_partition self) w of
        (Inl e, w') \<Rightarrow> (Inl e, w')
      | (Inr offs, w') \<Rightarrow> (first_of offs, w'))"

definition latest_offset :: "partition_handle \<Rightarrow> world \<Rightarrow> (kafka_error + int) \<times> world" where
  "latest_offset self w =
     (case offsets (p_kafka self) (p_topic self) LATEST_OFFSET 1 (p_partition self) w of
        (Inl e, w') \<Rightarrow> (Inl e, w')
      | (Inr offs, w') \<Rightarrow> (first_of offs, w'))"

subsection \<open>Partition.poll\<close>

text \<open>
  \<open>poll\<close> is a generator around \<open>while True\<close>. Its arguments are \<open>poll_args\<close>, its
  local variables \<open>poll_vars\<close>; \<open>poll_begin\<close> is the code before the loop and
  \<open>poll_step\<close> one pass through the loop body, from wherever the generator stands
  (its start, a \<open>continue\<close>, or the \<open>yield\<close>, after which the idle sleep comes first)
  to the next \<open>continue\<close>, \<open>yield\<close>, \<open>break\<close> or exception.
\<close>

record polling_status =
  start_offset :: int
  next_offset :: "int option"
  last_offset_read :: "int option"
  messages_read :: nat
  bytes_read :: nat
  num_fetches :: nat
  polling_start_time :: nat
  seconds_slept :: nat

record poll_args =
  arg_offset :: "int option"
  arg_end_offset :: "int option"
  arg_poll_interval :: nat
  arg_max_size :: "int option"
  arg_include_corrupt :: bool
  arg_retry_limit :: "int option"

record poll_vars =
  v_first_loop :: bool
  v_start_offset :: int
  v_offset :: "int option"
  v_last_offset_read :: "int option"
  v_messages_read :: nat
  v_bytes_read :: nat
  v_num_fetches :: nat
  v_seconds_slept :: nat
  v_polling_start_time :: nat
  v_retry_attempts :: int
  v_messages :: "bytes list"
  v_at_yield :: bool

datatype outcome =
    Done
  | Raised kafka_error
  | Retry poll_vars
  | Yielded polling_status "bytes list" poll_vars

fun py_lt :: "int option \<Rightarrow> int option \<Rightarrow> bool" where
  \<comment> \<open>Python 2 orders \<open>None\<close> below every number\<close>
  "py_lt None None = False"
| "py_lt None (Some y) = True"
| "py_lt (Some x) None = False"
| "py_lt (Some x) (Some y) = (x < y)"

definition py_le :: "int option \<Rightarrow> int option \<Rightarrow> bool" where
  "py_le a b = (\<not> py_lt b a)"

definition unpack2 :: "msg_record \<Rightarrow> kafka_error + (int \<times> bytes)" where
  \<comment> \<open>the target \<open>msg_offset, msg\<close> of a \<open>for\<close>: a tuple of three does not unpack\<close>
  "unpack2 r = (case r of Rec2 off msg \<Rightarrow> Inr (off, msg) | Rec3 off msg c \<Rightarrow> Inl ValueError)"

fun unpack_all :: "msg_record list \<Rightarrow> kafka_error + (int \<times> bytes) list" where
  "unpack_all [] = Inr []"
| "unpack_all (r # rs) =
     err_bind (unpack2 r) (\<lambda>p. err_bind (unpack_all rs) (\<lambda>ps. Inr (p # ps)))"

definition filter_past_end :: "int option \<Rightarrow> msg_record list \<Rightarrow> kafka_error + msg_record list" where
  \<comment> \<open>lines 541 to 544: the batch without the messages past \<open>end_offset\<close>\<close>
  "filter_past_end end_offset msg_batch =
     (case end_offset of
        None \<Rightarrow> Inr msg_batch
      | Some e \<Rightarrow>
          err_bind (unpack_all msg_batch) (\<lambda>ps.
            Inr (map (\<lambda>(msg_offset, msg). Rec2 msg_offset msg)
                   (filter (\<lambda>(msg_offset, msg). msg_offset \<le> e) ps))))"

definition fetch_messages ::
  "partition_handle \<Rightarrow> poll_args \<Rightarrow> int option \<Rightarrow> world
     \<Rightarrow> (kafka_error + msg_record list) \<times> world" where
  "fetch_messages self args offset w =
     fetch (p_kafka self) (p_topic self) offset (p_partition self) (arg_max_size args)
       (arg_include_corrupt args) w"

definition poll_begin ::
  "partition_handle \<Rightarrow> poll_args \<Rightarrow> world \<Rightarrow> (kafka_error + poll_vars) \<times> world" where
  "poll_begin self args w =
     (case (case arg_offset args of
              None \<Rightarrow> latest_offset self w
            | Some off \<Rightarrow> (Inr off, w)) of
        (Inl e, w') \<Rightarrow> (Inl e, w')
      | (Inr start, w') \<Rightarrow>
          (Inr \<lparr>v_first_loop = True, v_start_offset = start, v_offset = arg_offset args,
                v_last_offset_read = None, v_messages_read = 0, v_bytes_read = 0,
                v_num_fetches = 0, v_seconds_slept = 0, v_polling_start_time = now w',
                v_retry_attempts = 0, v_messages = [], v_at_yield = False\<rparr>, w'))"

definition first_loop_check ::
  "partition_handle \<Rightarrow> poll_args \<Rightarrow> poll_vars \<Rightarrow> world \<Rightarrow> kafka_error option \<times> world" where
  \<comment> \<open>lines 557 to 559; the chained comparison and \<open>and\<close> stop at the first false\<close>
  "first_loop_check self args v w =
     (case earliest_offset self w of
        (Inl e, w1) \<Rightarrow> (Some e, w1)
      | (Inr earliest, w1) \<Rightarrow>
          if \<not> py_le (Some earliest) (v_offset v) then (None, w1)
          else
            (case latest_offset self w1 of
               (Inl e, w2) \<Rightarrow> (Some e, w2)
             | (Inr latest, w2) \<Rightarrow>
                 if \<not> py_lt (v_offset v) (Some latest) then (None, w2)
                 else
                   (case fetch_messages self args (v_offset v) w2 of
                      (Inl e, w3) \<Rightarrow> (Some e, w3)
                    | (Inr again, w3) \<Rightarrow>
                        if again = [] then (Some InvalidOffset, w3) else (None, w3))))"

definition poll_process ::
  "partition_handle \<Rightarrow> poll_args \<Rightarrow> poll_vars \<Rightarrow> msg_record list \<Rightarrow> world
     \<Rightarrow> outcome \<times> world" where
  \<comment> \<open>lines 541 to 582: from the filter to the \<open>yield\<close>\<close>
  "poll_process self args v fetched w =
     (case filter_past_end (arg_end_offset args) fetched of
        Inl e \<Rightarrow> (Raised e, w)
      | Inr msg_batch \<Rightarrow>
          (case (if v_first_loop v \<and> msg_batch = [] then first_loop_check self args v w
                 else (None, w)) of
             (Some e, w1) \<Rightarrow> (Raised e, w1)
           | (None, w1) \<Rightarrow>
               (case unpack_all msg_batch of
                  Inl e \<Rightarrow> (Raised e, w1)
                | Inr pairs \<Rightarrow>
                    let messages = map snd pairs;
                        v1 = v\<lparr>v_first_loop := False,
                               v_messages_read := v_messages_read v + length messages,
                               v_bytes_read := v_bytes_read v + sum_list (map length messages),
                               v_num_fetches := v_num_fetches v + 1\<rparr>;
                        v2 = (if msg_batch \<noteq> []
                              then v1\<lparr>v_last_offset_read := Some (fst (last pairs)),
                                      v_offset := Some (fst (last pairs)
                                                        + int (length (snd (last pairs))) + 9)\<rparr>
                              else v1);
                        status = \<lparr>start_offset = v_start_offset v2,
                                  next_offset = v_offset v2,
                                  last_offset_read = v_last_offset_read v2,
                                  messages_read = v_messages_read v2,
                                  bytes_read = v_bytes_read v2,
                                  num_fetches = v_num_fetches v2,
                                  polling_start_time = v_polling_start_time v2,
                                  seconds_slept = v_seconds_slept v2\<rparr>
                    in (Yielded status messages (v2\<lparr>v_messages := messages, v_at_yield := True\<rparr>),
                        w1))))"

definition poll_after_yield :: "poll_args \<Rightarrow> poll_vars \<Rightarrow> world \<Rightarrow> poll_vars \<times> world" where
  \<comment> \<open>lines 586 to 588, run when the consumer asks for the next item\<close>
  "poll_after_yield args v w =
     (if v_at_yield v \<and> arg_poll_interval args \<noteq> 0 \<and> v_messages v = []
      then (v\<lparr>v_seconds_slept := v_seconds_slept v + arg_poll_interval args,
               v_at_yield := False\<rparr>,
            sleep (arg_poll_interval args) w)
      else (v\<lparr>v_at_yield := False\<rparr>, w))"

definition poll_body ::
  "partition_handle \<Rightarrow> poll_args \<Rightarrow> poll_vars \<Rightarrow> world \<Rightarrow> outcome \<times> world" where
  \<comment> \<open>lines 514 to 539, then \<open>poll_process\<close>\<close>
  "poll_body self args v w =
     (if (case arg_end_offset args of None \<Rightarrow> False
          | Some e \<Rightarrow> py_lt (Some e) (v_offset v))
      then (Done, w)
      else
        (case fetch_messages self args (v_offset v) w of
           (Inr msg_batch, w1) \<Rightarrow>
             poll_process self args (v\<lparr>v_retry_attempts := 0\<rparr>) msg_batch w1
         | (Inl ex, w1) \<Rightarrow>
             if ex = ConnectionFailure \<or> ex = IOError
             then
               (if (case arg_retry_limit args of None \<Rightarrow> False
                    | Some limit \<Rightarrow> v_retry_attempts v > limit)
                then (Raised ex, w1)
                else (Retry (v\<lparr>v_retry_attempts := v_retry_attempts v + 1\<rparr>),
                      sleep (arg_poll_interval args) w1))
             else if ex = OffsetOutOfRange
             then
               (case earliest_offset self w1 of
                  (Inl e, w2) \<Rightarrow> (Raised e, w2)
                | (Inr earliest, w2) \<Rightarrow>
                    (case latest_offset self w2 of
                       (Inl e, w3) \<Rightarrow> (Raised e, w3)
                     | (Inr latest, w3) \<Rightarrow> (Raised OffsetOutOfRange, w3)))
             else (Raised ex, w1)))"

definition poll_step ::
  "partition_handle \<Rightarrow> poll_args \<Rightarrow> poll_vars \<Rightarrow> world \<Rightarrow> outcome \<times> world" where
  "poll_step self args v w =
     (case poll_after_yield args v w of (v', w') \<Rightarrow> poll_body self args v' w')"

datatype run_end = Exhausted | Failed kafka_error | Running poll_vars

fun poll_run ::
  "nat \<Rightarrow> partition_handle \<Rightarrow> poll_args \<Rightarrow> poll_vars \<Rightarrow> world
     \<Rightarrow> (polling_status \<times> bytes list) list \<times> run_end \<times> world" where
  \<comment> \<open>the items the generator yields in at most \<open>n\<close> passes, and how it stands then\<close>
  "poll_run 0 self args v w = ([], Running v, w)"
| "poll_run (Suc n) self args v w =
     (case poll_step self args v w of
        (Done, w') \<Rightarrow> ([], Exhausted, w')
      | (Raised e, w') \<Rightarrow> ([], Failed e, w')
      | (Retry v', w') \<Rightarrow> poll_run n self args v' w'
      | (Yielded status messages v', w') \<Rightarrow>
          (case poll_run n self args v' w' of
             (items, fin, w'') \<Rightarrow> ((status, messages) # items, fin, w'')))"

definition poll ::
  "nat \<Rightarrow> partition_handle \<Rightarrow> poll_args \<Rightarrow> world
     \<Rightarrow> (polling_status \<times> bytes list) list \<times> run_end \<times> world" where
  "poll n self args w =
     (case poll_begin self args w of
        (Inl e, w') \<Rightarrow> ([], Failed e, w')
      | (Inr v, w') \<Rightarrow> poll_run n self args v w')"

subsection \<open>What the properties are stated with\<close>

text \<open>
  A message on the wire, as the parser reads it: the length field covers the magic
  byte, the checksum and the payload. A message is complete when its checksum field
  has its four bytes and its length fits the length field.
\<close>

type_synonym wire_msg = "byte \<times> bytes \<times> bytes"

definition wire_message :: "byte \<Rightarrow> bytes \<Rightarrow> bytes \<Rightarrow> bytes" where
  "wire_message magic cks payload =
     be_bytes 4 (int (length payload) + 5) @ [magic] @ cks @ payload"

definition complete :: "wire_msg \<Rightarrow> bool" where
  "complete m =
     (case m of (magic, cks, payload) \<Rightarrow> length cks = 4 \<and> int (length payload) + 5 < 2 ^ 32)"

fun wire_of :: "wire_msg list \<Rightarrow> bytes" where
  "wire_of [] = []"
| "wire_of ((magic, cks, payload) # ms) = wire_message magic cks payload @ wire_of ms"

definition short_message :: "int \<Rightarrow> byte \<Rightarrow> bytes \<Rightarrow> bytes \<Rightarrow> bytes" where
  \<comment> \<open>a message whose length field declares more payload than the buffer still holds\<close>
  "short_message declared magic cks got = be_bytes 4 declared @ [magic] @ cks @ got"

definition offsets_response :: "int list \<Rightarrow> bytes \<Rightarrow> bytes" where
  \<comment> \<open>what the server sends for a list of offsets: error code 0, the count, the offsets\<close>
  "offsets_response offs rest =
     [0, 0] @ be_bytes 4 (int (length offs)) @ concat (map (be_bytes 8) offs) @ rest"

definition stalled_world :: world where
  \<comment> \<open>a server whose answer ends one byte into a payload declared three bytes long\<close>
  "stalled_world =
     \<lparr>server = (\<lambda>tr req. Data ([0, 0] @ short_message 8 0 [1, 2, 3, 4] [97])),
      trace = [], now = 0\<rparr>"

definition offsets_world :: "int list \<Rightarrow> world" where
  \<comment> \<open>a server that answers every request with this list of offsets\<close>
  "offsets_world offs =
     \<lparr>server = (\<lambda>tr req. Data (offsets_response offs [])), trace = [], now = 0\<rparr>"

definition topic_t :: partition_handle where
  \<comment> \<open>\<open>Kafka().partition('t')\<close>\<close>
  "topic_t = \<lparr>p_kafka = kafka_init None None None False, p_topic = [116], p_partition = None\<rparr>"

definition default_args :: poll_args where
  \<comment> \<open>the default values of the parameters of \<open>poll\<close>\<close>
  "default_args =
     \<lparr>arg_offset = None, arg_end_offset = None, arg_poll_interval = 1, arg_max_size = None,
      arg_include_corrupt = False, arg_retry_limit = Some 3\<rparr>"

definition dead_world :: world where
  \<comment> \<open>a server that cannot be reached: every round trip raises \<open>ConnectionFailure\<close>\<close>
  "dead_world = \<lparr>server = (\<lambda>tr req. Raises ConnectionFailure), trace = [], now = 0\<rparr>"

definition fetch_at :: "int \<Rightarrow> event" where
  \<comment> \<open>the fetch request of \<open>topic_t\<close> for this offset, as handed to the connection\<close>
  "fetch_at off =
     Request (be_bytes 4 21)
       (be_bytes 2 1 @ be_bytes 2 1 @ [116] @ be_bytes 4 0 @ be_bytes 8 off @ be_bytes 4 1048576)"

definition latest_lookup :: event where
  \<comment> \<open>the offsets request of \<open>topic_t\<close> for \<open>LATEST_OFFSET\<close>\<close>
  "latest_lookup =
     Request (be_bytes 4 21)
       (be_bytes 2 4 @ be_bytes 2 1 @ [116] @ be_bytes 4 0 @ be_bytes 8 (- 1) @ be_bytes 4 1)"

definition as_wire :: "bytes \<Rightarrow> wire_msg" where
  \<comment> \<open>a payload as the produce request puts it on the wire\<close>
  "as_wire message = (0, be_bytes 4 (compute_checksum message), message)"

definition is_corrupt :: "byte \<Rightarrow> bytes \<Rightarrow> bytes \<Rightarrow> bool" where
  "is_corrupt magic cks payload \<longleftrightarrow>
     uint magic \<noteq> 0 \<or>
     (let v = be_decode cks in if v < 2 ^ 31 then v else v - 2 ^ 32) \<noteq> compute_checksum payload"

definition mk_record :: "bool \<Rightarrow> int \<Rightarrow> bytes \<Rightarrow> bool \<Rightarrow> msg_record" where
  "mk_record ic off payload c = (if ic then Rec3 off payload c else Rec2 off payload)"

fun records_from :: "int \<Rightarrow> bool \<Rightarrow> wire_msg list \<Rightarrow> msg_record list" where
  "records_from off ic [] = []"
| "records_from off ic ((magic, cks, payload) # ms) =
     mk_record ic off payload (is_corrupt magic cks payload)
     # records_from (off + int (length payload) + 9) ic ms"

fun rec_offset :: "msg_record \<Rightarrow> int" where
  "rec_offset (Rec2 off payload) = off"
| "rec_offset (Rec3 off payload c) = off"

fun rec_payload :: "msg_record \<Rightarrow> bytes" where
  "rec_payload (Rec2 off payload) = payload"
| "rec_payload (Rec3 off payload c) = payload"

fun payload_flag :: "msg_record \<Rightarrow> (bytes \<times> bool) option" where
  "payload_flag (Rec2 off payload) = None"
| "payload_flag (Rec3 off payload c) = Some (payload, c)"

definition flip_payload_bit :: "bytes \<Rightarrow> nat \<Rightarrow> nat \<Rightarrow> bytes" where
  \<comment> \<open>the payload with bit \<open>k\<close> of byte \<open>i\<close> inverted\<close>
  "flip_payload_bit payload i k = payload[i := payload ! i XOR push_bit k 1]"

section \<open>Properties\<close>

subsection \<open>Numbers and bytes\<close>

lemma length_be_bytes [simp]: "length (be_bytes k v) = k"
  by (induction k arbitrary: v) simp_all

lemma err_bind_simps [simp]:
  "err_bind (Inl e) f = Inl e"
  "err_bind (Inr x) f = f x"
  by (simp_all add: err_bind_def)

lemma be_bytes_numeral:
  "be_bytes (numeral n) v = be_bytes (pred_numeral n) (v div 256) @ [word_of_int v]"
  by (simp add: numeral_eq_Suc)

lemma be_decode_snoc: "be_decode (bs @ [b]) = be_decode bs * 256 + uint b"
  by (simp add: be_decode_def)

lemma be_decode_single: "be_decode [b] = uint b"
  by (simp add: be_decode_def)

lemma be_decode_be_bytes: "be_decode (be_bytes k v) = v mod 256 ^ k"
proof (induction k arbitrary: v)
  case 0
  show ?case by (simp add: be_decode_def)
next
  case (Suc k)
  have "uint (word_of_int v :: byte) = v mod 256"
    by (simp add: uint_word_of_int)
  then have "be_decode (be_bytes (Suc k) v) = (v div 256 mod 256 ^ k) * 256 + v mod 256"
    by (simp add: be_decode_snoc Suc.IH)
  also have "\<dots> = v mod (256 * 256 ^ k)"
    using zmod_zmult2_eq [of "256 ^ k" v 256] by simp
  finally show ?case by simp
qed

lemma be_decode_unsigned: "0 \<le> v \<Longrightarrow> v < 256 ^ k \<Longrightarrow> be_decode (be_bytes k v) = v"
  by (simp add: be_decode_be_bytes)

subsection \<open>The fetch request\<close>

text \<open>
  Claim C1. For a topic, partition, offset and maximal size that fit their fields, the
  body of the fetch request is the request type 1 on two bytes, the length of the topic
  on two bytes, the topic, the partition on four bytes, the offset on eight and the
  maximal size on four, each big-endian (\<open>be_decode\<close> reads each field back), and the
  size prefix is the length of the body on four bytes. The instance below is the
  request for the topic "orders" at offset 42.
\<close>

theorem fetch_request_layout:
  assumes "length topic < 65536"
    and "0 \<le> part" "part < 2 ^ 32"
    and "0 \<le> offset" "offset < 2 ^ 64"
    and "0 \<le> max_size" "max_size < 2 ^ 32"
  shows "let body = be_bytes 2 1 @ be_bytes 2 (int (length topic)) @ topic
                    @ be_bytes 4 part @ be_bytes 8 offset @ be_bytes 4 max_size;
             size_prefix = be_bytes 4 (int (length body))
         in
      fetch_request topic (Some offset) part max_size = Inr (size_prefix, body) \<and>
      be_decode size_prefix = int (length body) \<and>
      be_decode (be_bytes 2 (int (length topic))) = int (length topic) \<and>
      be_decode (be_bytes 4 part) = part \<and>
      be_decode (be_bytes 8 offset) = offset \<and>
      be_decode (be_bytes 4 max_size) = max_size"
  using assms
  by (simp add: fetch_request_def pack_I_def pack_H_def pack_Q_def pack_s_def
      pack_unsigned_def FETCH_REQUEST_def be_decode_be_bytes Let_def)

theorem fetch_request_layout_witness:
  "fetch_request (map of_char ''orders'') (Some 42) 0 1048576 =
     Inr ([0, 0, 0, 26],
          [0x00, 0x01, 0x00, 0x06, 0x6F, 0x72, 0x64, 0x65, 0x72, 0x73,
           0x00, 0x00, 0x00, 0x00,
           0x00, 0x00, 0x00, 0x00, 0x00, 0x00, 0x00, 0x2A,
           0x00, 0x10, 0x00, 0x00])"
  using fetch_request_layout [of "map of_char ''orders''" 0 42 1048576]
  by (simp add: be_bytes_numeral Let_def)

subsection \<open>The parser on a buffer of complete messages\<close>

lemma sio_read_exact:
  assumes "sdata b = pre @ x @ rest" "spos b = length pre" "n = int (length x)"
  shows "sio_read b n = (x, b\<lparr>spos := length pre + length x\<rparr>)"
  using assms by (simp add: sio_read_def Let_def)

lemma parse_loop_wire:
  assumes ck: "length cks = 4" and len: "int (length payload) + 5 < 2 ^ 32"
    and pos: "spos b = length pre"
    and dat: "sdata b = pre @ wire_message mg cks payload @ rest"
  shows "parse_loop s sic ic b =
     mk_record ic (s + int (length pre) - 2) payload (is_corrupt mg cks payload)
     # parse_loop s sic ic (b\<lparr>spos := length pre + 9 + length payload\<rparr>)"
proof -
  let ?L = "int (length payload) + 5"
  let ?b1 = "b\<lparr>spos := length pre + 4\<rparr>"
  let ?b2 = "b\<lparr>spos := length pre + 5\<rparr>"
  let ?b3 = "b\<lparr>spos := length pre + 9\<rparr>"
  let ?b4 = "b\<lparr>spos := length pre + 9 + length payload\<rparr>"
  have m: "be_decode (be_bytes 4 ?L) = ?L"
    using len by (simp add: be_decode_be_bytes)
  have r1: "sio_read b 4 = (be_bytes 4 ?L, ?b1)"
    using sio_read_exact [of b pre "be_bytes 4 ?L" "[mg] @ cks @ payload @ rest" 4]
    by (simp add: dat pos wire_message_def)
  have r2: "sio_read ?b1 1 = ([mg], ?b2)"
    using sio_read_exact [of ?b1 "pre @ be_bytes 4 ?L" "[mg]" "cks @ payload @ rest" 1]
    by (simp add: dat wire_message_def)
  have r3: "sio_read ?b2 4 = (cks, ?b3)"
    using sio_read_exact [of ?b2 "pre @ be_bytes 4 ?L @ [mg]" cks "payload @ rest" 4]
    by (simp add: dat wire_message_def ck)
  have r4: "sio_read ?b3 (?L - 1 - 4) = (payload, ?b4)"
    using sio_read_exact [of ?b3 "pre @ be_bytes 4 ?L @ [mg] @ cks" payload rest "?L - 1 - 4"]
    by (simp add: dat wire_message_def ck)
  have ne: "be_bytes 4 ?L \<noteq> []"
    by (metis length_be_bytes list.size(3) zero_neq_numeral)
  show ?thesis
    apply (subst parse_loop.simps)
    apply (simp only: Let_def r1 r2 r3 r4 fst_conv snd_conv m ne if_False length_be_bytes
        less_irrefl tell_def pos list.size)
    apply (simp add: mk_record_def is_corrupt_def be_decode_single MAGIC_BYTE_def ck)
    done
qed

lemma length_wire_message: "length cks = 4 \<Longrightarrow> length (wire_message mg cks payload) = 9 + length payload"
  by (simp add: wire_message_def)

lemma parse_loop_wire_of:
  assumes "\<forall>m \<in> set ms. complete m"
  shows "parse_loop s sic ic \<lparr>sdata = pre @ wire_of ms @ rest, spos = length pre\<rparr> =
     records_from (s + int (length pre) - 2) ic ms
     @ parse_loop s sic ic \<lparr>sdata = pre @ wire_of ms @ rest, spos = length pre + length (wire_of ms)\<rparr>"
  using assms
proof (induction ms arbitrary: pre)
  case Nil
  show ?case by simp
next
  case (Cons m ms)
  obtain mg cks payload where m: "m = (mg, cks, payload)" by (cases m)
  from Cons.prems have c: "length cks = 4" "int (length payload) + 5 < 2 ^ 32"
    and rest: "\<forall>m \<in> set ms. complete m"
    by (simp_all add: m complete_def)
  let ?b = "\<lparr>sdata = pre @ wire_of (m # ms) @ rest, spos = length pre\<rparr>"
  let ?pre' = "pre @ wire_message mg cks payload"
  have step: "parse_loop s sic ic ?b =
      mk_record ic (s + int (length pre) - 2) payload (is_corrupt mg cks payload)
      # parse_loop s sic ic (?b\<lparr>spos := length pre + 9 + length payload\<rparr>)"
    by (rule parse_loop_wire [OF c, where rest = "wire_of ms @ rest"]) (simp_all add: m)
  have eq: "?b\<lparr>spos := length pre + 9 + length payload\<rparr> =
      \<lparr>sdata = ?pre' @ wire_of ms @ rest, spos = length ?pre'\<rparr>"
    by (simp add: m length_wire_message c)
  show ?case
    unfolding step eq Cons.IH [OF rest, of ?pre']
    by (simp add: m length_wire_message c algebra_simps)
qed

lemma parse_loop_at_end:
  "length (sdata b) \<le> spos b \<Longrightarrow> parse_loop s sic ic b = []"
  by (subst parse_loop.simps) (simp add: sio_read_def Let_def)

lemma length_fst_sio_read:
  "0 \<le> n \<Longrightarrow> length (fst (sio_read b n)) = min (nat n) (length (sdata b) - spos b)"
  by (simp add: sio_read_def Let_def)

lemma snd_sio_read:
  "sdata (snd (sio_read b n)) = sdata b"
  "spos (snd (sio_read b n)) = spos b + length (fst (sio_read b n))"
  by (simp_all add: sio_read_def Let_def)

lemma parse_loop_short1:
  "length (fst (sio_read b 4)) < 4 \<Longrightarrow> parse_loop s sic ic b = []"
  by (subst parse_loop.simps) (simp add: Let_def)

lemma parse_loop_short2:
  "length (fst (sio_read (snd (sio_read b 4)) 1)) < 1 \<Longrightarrow> parse_loop s sic ic b = []"
  by (subst parse_loop.simps) (simp add: Let_def)

lemma parse_loop_short3:
  "length (fst (sio_read (snd (sio_read (snd (sio_read b 4)) 1)) 4)) < 4
    \<Longrightarrow> parse_loop s sic ic b = []"
  by (subst parse_loop.simps) (simp add: Let_def)

lemma parse_loop_short_header:
  assumes "length (sdata b) - spos b < 9"
  shows "parse_loop s sic ic b = []"
proof -
  let ?b1 = "snd (sio_read b 4)"
  let ?b2 = "snd (sio_read ?b1 1)"
  consider "length (sdata b) - spos b < 4" | "length (sdata b) - spos b = 4"
    | "4 < length (sdata b) - spos b" by linarith
  then show ?thesis
  proof cases
    case 1
    then have "length (fst (sio_read b 4)) < 4"
      by (simp add: length_fst_sio_read)
    then show ?thesis by (rule parse_loop_short1)
  next
    case 2
    then have "length (fst (sio_read b 4)) = 4"
      by (simp add: length_fst_sio_read)
    with 2 have "length (fst (sio_read ?b1 1)) < 1"
      by (simp add: length_fst_sio_read snd_sio_read)
    then show ?thesis by (rule parse_loop_short2)
  next
    case 3
    then have a: "length (fst (sio_read b 4)) = 4"
      by (simp add: length_fst_sio_read)
    with 3 have b: "length (fst (sio_read ?b1 1)) = 1"
      by (simp add: length_fst_sio_read snd_sio_read)
    from a b 3 assms have "length (fst (sio_read ?b2 4)) < 4"
      by (simp add: length_fst_sio_read snd_sio_read)
    then show ?thesis by (rule parse_loop_short3)
  qed
qed

subsection \<open>What the encoder writes\<close>

lemma sint_bounds32: "- (2 ^ 31) \<le> sint (w :: 32 word)" "sint (w :: 32 word) < 2 ^ 31"
  using sint_ge [of w] sint_lt [of w] by simp_all

lemma be_decode_signed:
  assumes "- (2 ^ 31) \<le> v" "v < 2 ^ 31"
  shows "(let u = be_decode (be_bytes 4 v) in if u < 2 ^ 31 then u else u - 2 ^ 32) = v"
proof (cases "0 \<le> v")
  case True
  with assms have "v mod 2 ^ 32 = v" by simp
  with assms show ?thesis by (simp add: be_decode_be_bytes Let_def)
next
  case False
  with assms have "(v + 2 ^ 32) mod 2 ^ 32 = v + 2 ^ 32"
    by (intro mod_pos_pos_trivial) simp_all
  then have "v mod 2 ^ 32 = v + 2 ^ 32"
    by simp
  with assms False show ?thesis by (simp add: be_decode_be_bytes Let_def)
qed

lemma compute_checksum_range:
  "- (2 ^ 31) \<le> compute_checksum p" "compute_checksum p < 2 ^ 31"
  using sint_bounds32 [of "crc32 p"] by (simp_all add: compute_checksum_def binascii_crc32_def)

lemma encode_message_wire:
  assumes "int (length message) + 5 < 2 ^ 31"
  shows "encode_message message =
    Inr (wire_message 0 (be_bytes 4 (compute_checksum message)) message)"
  using assms compute_checksum_range [of message]
  by (simp add: encode_message_def pack_B_def pack_i_def pack_s_def pack_unsigned_def
      pack_signed_def MAGIC_BYTE_def wire_message_def Let_def add.commute)

lemma not_corrupt_encoded:
  "\<not> is_corrupt 0 (be_bytes 4 (compute_checksum message)) message"
  using be_decode_signed [OF compute_checksum_range, of message]
  by (simp add: is_corrupt_def Let_def)

lemma encode_message_set_wire:
  assumes "\<forall>m \<in> set messages. int (length m) + 5 < 2 ^ 31"
  shows "encode_message_set messages = Inr (wire_of (map as_wire messages))"
  using assms by (induction messages) (simp_all add: encode_message_wire as_wire_def)

subsection \<open>The records of a buffer\<close>

lemma parse_complete_buffer:
  assumes "\<forall>m \<in> set ms. complete m" and "length tr < 9"
  shows "parse_loop s sic ic \<lparr>sdata = pre @ wire_of ms @ tr, spos = length pre\<rparr> =
     records_from (s + int (length pre) - 2) ic ms"
  using assms
  by (simp add: parse_loop_wire_of parse_loop_short_header)

lemma length_records_from [simp]: "length (records_from off ic ms) = length ms"
  by (induction off ic ms rule: records_from.induct) simp_all

lemma rec_payload_mk_record [simp]: "rec_payload (mk_record ic off p c) = p"
  by (simp add: mk_record_def)

lemma rec_offset_mk_record [simp]: "rec_offset (mk_record ic off p c) = off"
  by (simp add: mk_record_def)

lemma payloads_records_from: "map rec_payload (records_from off ic ms) = map (snd \<circ> snd) ms"
  by (induction off ic ms rule: records_from.induct) simp_all

lemma offsets_records_from_ge:
  "r \<in> set (records_from off ic ms) \<Longrightarrow> off \<le> rec_offset r"
  by (induction off ic ms rule: records_from.induct) auto

lemma sorted_records_from: "sorted_wrt (<) (map rec_offset (records_from off ic ms))"
proof (induction off ic ms rule: records_from.induct)
  case (1 off ic)
  show ?case by simp
next
  case (2 off ic magic cks payload ms)
  have "off < rec_offset r" if "r \<in> set (records_from (off + int (length payload) + 9) ic ms)" for r
    using offsets_records_from_ge [OF that] by simp
  with 2 show ?case by auto
qed

lemma hd_records_from:
  "ms \<noteq> [] \<Longrightarrow> rec_offset (records_from off ic ms ! 0) = off"
  by (cases ms) auto

lemma step_records_from:
  "Suc i < length ms \<Longrightarrow>
   rec_offset (records_from off ic ms ! Suc i) =
   rec_offset (records_from off ic ms ! i) + int (length (rec_payload (records_from off ic ms ! i))) + 9"
proof (induction off ic ms arbitrary: i rule: records_from.induct)
  case (1 off ic)
  then show ?case by simp
next
  case (2 off ic magic cks payload ms)
  show ?case
  proof (cases i)
    case 0
    with 2 have "ms \<noteq> []" by auto
    with 0 show ?thesis by (simp add: hd_records_from)
  next
    case (Suc j)
    with 2 show ?thesis by simp
  qed
qed

lemma flags_records_as_wire:
  "map payload_flag (records_from off True (map as_wire messages)) =
   map (\<lambda>m. Some (m, False)) messages"
  by (induction messages arbitrary: off)
     (simp_all add: as_wire_def mk_record_def not_corrupt_encoded)

subsection \<open>Round trip\<close>

text \<open>
  Claim C2. Whatever payloads the message-set loop of the produce request can encode
  (each with its five header bytes must fit the signed 32-bit length field), the
  encoding succeeds, and the parser, called with \<open>include_corrupt = True\<close> on the bytes
  it wrote, yields one record for each payload, in order, with that payload and
  \<open>corrupt = False\<close>.
\<close>

theorem produce_parse_roundtrip:
  assumes "\<forall>m \<in> set messages. int (length m) + 5 < 2 ^ 31"
  shows "\<exists>message_set.
      encode_message_set messages = Inr message_set \<and>
      map payload_flag
        (parse_message_set self_include_corrupt (Some start) (StringIO message_set) True) =
      map (\<lambda>m. Some (m, False)) messages"
proof -
  have c: "\<forall>m \<in> set (map as_wire messages). complete m"
    using assms by (auto simp add: complete_def as_wire_def)
  have "parse_loop start self_include_corrupt True
          \<lparr>sdata = [] @ wire_of (map as_wire messages) @ [], spos = length ([] :: bytes)\<rparr> =
        records_from (start + int (length ([] :: bytes)) - 2) True (map as_wire messages)"
    by (rule parse_complete_buffer [OF c]) simp
  then show ?thesis
    by (simp add: encode_message_set_wire [OF assms] parse_message_set_def StringIO_def
        flags_records_as_wire)
qed

theorem produce_parse_roundtrip_witness:
  "map payload_flag
     (parse_message_set False (Some 100)
        (StringIO [0, 0, 0, 6, 0, 232, 183, 190, 67, 97, 0, 0, 0, 5, 0, 0, 0, 0, 0]) True) =
   [Some ([97], False), Some ([], False)]"
proof -
  have "encode_message_set [[97], []] =
      Inr [0, 0, 0, 6, 0, 232, 183, 190, 67, 97, 0, 0, 0, 5, 0, 0, 0, 0, 0]"
    by code_simp
  with produce_parse_roundtrip [of "[[97], []]" False 100] show ?thesis
    by simp
qed

subsection \<open>Offsets of the parsed messages\<close>

text \<open>
  Claim C3. On a buffer that holds complete messages one after the other, from whatever
  position and for whatever start offset, the parser yields one record for each
  message with its payload, the offsets of the records increase strictly, and each
  offset is the one before it plus the length of the payload before it plus the nine
  bytes of the header.
\<close>

theorem parsed_offsets_increase:
  assumes "\<forall>m \<in> set ms. complete m"
  shows "let recs = parse_message_set self_include_corrupt (Some start)
                      \<lparr>sdata = pre @ wire_of ms, spos = length pre\<rparr> ic
         in length recs = length ms \<and>
            map rec_payload recs = map (snd \<circ> snd) ms \<and>
            sorted_wrt (<) (map rec_offset recs) \<and>
            (\<forall>i. Suc i < length ms \<longrightarrow>
               rec_offset (recs ! Suc i) =
               rec_offset (recs ! i) + int (length (rec_payload (recs ! i))) + 9)"
proof -
  have "parse_loop start self_include_corrupt ic
          \<lparr>sdata = pre @ wire_of ms @ [], spos = length pre\<rparr> =
        records_from (start + int (length pre) - 2) ic ms"
    by (rule parse_complete_buffer [OF assms]) simp
  then show ?thesis
    by (simp add: parse_message_set_def Let_def payloads_records_from sorted_records_from
        step_records_from)
qed

theorem parsed_offsets_increase_witness:
  "let recs = parse_message_set False (Some 100)
                \<lparr>sdata = [0, 0] @ wire_of [(0, [1, 2, 3, 4], [97, 98]), (7, [0, 0, 0, 0], [])],
                   spos = length [0 :: byte, 0]\<rparr> True
   in length recs = 2 \<and> map rec_payload recs = [[97, 98], []] \<and>
      sorted_wrt (<) (map rec_offset recs) \<and>
      rec_offset (recs ! Suc 0) =
      rec_offset (recs ! 0) + int (length (rec_payload (recs ! 0))) + 9"
proof -
  let ?ms = "[(0, [1, 2, 3, 4], [97, 98]), (7, [0, 0, 0, 0], [])] :: wire_msg list"
  have c: "\<forall>m \<in> set ?ms. complete m"
    by (simp add: complete_def)
  have i: "Suc 0 < length ?ms"
    by simp
  from parsed_offsets_increase [OF c, of False 100 "[0, 0]" True] i show ?thesis
    unfolding Let_def by (simp del: wire_of.simps)
qed

subsection \<open>Truncated buffers\<close>

text \<open>
  Claim C4. On an empty buffer the parser yields nothing. On a buffer that ends inside
  the header of a message (fewer than nine bytes after the last complete message: inside
  the length, the magic byte or the checksum) it yields the records of the complete
  messages before that point and nothing else, the same records as without the
  truncated tail. The parser returns a list in every case: no exception reaches the
  caller, and \<open>_read_fetch_response\<close> returns that list.
\<close>

theorem parse_truncated_header:
  assumes "\<forall>m \<in> set ms. complete m" and "length tr < 9"
  shows "parse_message_set self_include_corrupt (Some start) (StringIO []) ic = [] \<and>
     parse_message_set self_include_corrupt (Some start)
       \<lparr>sdata = pre @ wire_of ms @ tr, spos = length pre\<rparr> ic =
     records_from (start + int (length pre) - 2) ic ms \<and>
     parse_message_set self_include_corrupt (Some start)
       \<lparr>sdata = pre @ wire_of ms @ tr, spos = length pre\<rparr> ic =
     parse_message_set self_include_corrupt (Some start)
       \<lparr>sdata = pre @ wire_of ms, spos = length pre\<rparr> ic \<and>
     read_fetch_response self_include_corrupt (Some start) ic
       \<lparr>sdata = pre @ wire_of ms @ tr, spos = length pre\<rparr> =
     records_from (start + int (length pre) - 2) ic ms"
proof -
  have e: "parse_loop start self_include_corrupt ic (StringIO []) = []"
    by (rule parse_loop_at_end) (simp add: StringIO_def)
  have t: "parse_loop start self_include_corrupt ic
          \<lparr>sdata = pre @ wire_of ms @ tr, spos = length pre\<rparr> =
        records_from (start + int (length pre) - 2) ic ms"
    by (rule parse_complete_buffer [OF assms])
  have u: "parse_loop start self_include_corrupt ic
          \<lparr>sdata = pre @ wire_of ms @ [], spos = length pre\<rparr> =
        records_from (start + int (length pre) - 2) ic ms"
    by (rule parse_complete_buffer [OF assms(1)]) simp
  from e t u show ?thesis
    by (simp add: parse_message_set_def read_fetch_response_def)
qed

theorem parse_truncated_header_witness:
  "parse_message_set False (Some 100)
     \<lparr>sdata = [0, 0] @ wire_of [(0, [1, 2, 3, 4], [97, 98])] @ [0, 0, 0, 9, 0, 1],
        spos = length [0 :: byte, 0]\<rparr> True =
   [Rec3 100 [97, 98] True]"
proof -
  have "is_corrupt 0 [1, 2, 3, 4] [97, 98]"
    by code_simp
  with parse_truncated_header
    [of "[(0, [1, 2, 3, 4], [97, 98])]" "[0, 0, 0, 9, 0, 1]" False 100 True "[0, 0]"]
  show ?thesis
    by (simp add: complete_def mk_record_def)
qed

subsection \<open>A payload cut short by the end of the buffer\<close>

lemma sio_read_rest:
  assumes "sdata b = pre @ x" "spos b = length pre" "int (length x) \<le> n"
  shows "sio_read b n = (x, b\<lparr>spos := length pre + length x\<rparr>)"
  using assms by (simp add: sio_read_def Let_def)

lemma parse_loop_short_payload:
  assumes ck: "length cks = 4" and d: "0 \<le> declared" "declared < 2 ^ 32"
    and short: "int (length got) < declared - 5"
    and pos: "spos b = length pre"
    and dat: "sdata b = pre @ short_message declared magic cks got"
  shows "parse_loop s sic ic b =
     (if sic then [mk_record ic (s + int (length pre) - 2) got (is_corrupt magic cks got)]
      else [])"
proof -
  let ?b1 = "b\<lparr>spos := length pre + 4\<rparr>"
  let ?b2 = "b\<lparr>spos := length pre + 5\<rparr>"
  let ?b3 = "b\<lparr>spos := length pre + 9\<rparr>"
  let ?b4 = "b\<lparr>spos := length pre + 9 + length got\<rparr>"
  have m: "be_decode (be_bytes 4 declared) = declared"
    using d by (simp add: be_decode_be_bytes)
  have r1: "sio_read b 4 = (be_bytes 4 declared, ?b1)"
    using sio_read_exact [of b pre "be_bytes 4 declared" "[magic] @ cks @ got" 4]
    by (simp add: dat pos short_message_def)
  have r2: "sio_read ?b1 1 = ([magic], ?b2)"
    using sio_read_exact [of ?b1 "pre @ be_bytes 4 declared" "[magic]" "cks @ got" 1]
    by (simp add: dat short_message_def)
  have r3: "sio_read ?b2 4 = (cks, ?b3)"
    using sio_read_exact [of ?b2 "pre @ be_bytes 4 declared @ [magic]" cks got 4]
    by (simp add: dat short_message_def ck)
  have r4: "sio_read ?b3 (declared - 1 - 4) = (got, ?b4)"
    using sio_read_rest [of ?b3 "pre @ be_bytes 4 declared @ [magic] @ cks" got "declared - 1 - 4"]
      short
    by (simp add: dat short_message_def ck)
  have ne: "be_bytes 4 declared \<noteq> []"
    by (metis length_be_bytes list.size(3) zero_neq_numeral)
  have fin: "parse_loop s sic ic ?b4 = []"
    by (rule parse_loop_at_end) (simp add: dat short_message_def ck)
  have sh: "int (length got) < declared - 1 - 4"
    using short by simp
  show ?thesis
    apply (subst parse_loop.simps)
    apply (simp only: Let_def r1 r2 r3 r4 fst_conv snd_conv m ne if_False length_be_bytes
        less_irrefl tell_def pos list.size sh fin)
    apply (simp add: mk_record_def is_corrupt_def be_decode_single MAGIC_BYTE_def ck)
    done
qed

lemma parse_short_payload_buffer:
  assumes "\<forall>m \<in> set ms. complete m"
    and "length cks = 4" "0 \<le> declared" "declared < 2 ^ 32"
    and "int (length got) < declared - 5"
  shows "parse_loop s sic ic
           \<lparr>sdata = pre @ wire_of ms @ short_message declared magic cks got, spos = length pre\<rparr> =
         records_from (s + int (length pre) - 2) ic ms @
         (if sic then [mk_record ic (s + int (length pre) + int (length (wire_of ms)) - 2) got
                         (is_corrupt magic cks got)]
          else [])"
proof -
  let ?d = "pre @ wire_of ms @ short_message declared magic cks got"
  have "parse_loop s sic ic \<lparr>sdata = ?d, spos = length pre + length (wire_of ms)\<rparr> =
      (if sic then [mk_record ic (s + int (length (pre @ wire_of ms)) - 2) got
                      (is_corrupt magic cks got)]
       else [])"
    by (rule parse_loop_short_payload [OF assms(2-5)]) simp_all
  then show ?thesis
    by (simp add: parse_loop_wire_of [OF assms(1)] algebra_simps)
qed

subsection \<open>CRC-32 sees every change within one byte\<close>

lemma xor_cancel_right: "(a :: 'a :: len word) XOR p = b XOR p \<Longrightarrow> a = b"
proof -
  assume "a XOR p = b XOR p"
  then have "(a XOR p) XOR p = (b XOR p) XOR p" by simp
  then show "a = b" by (simp add: xor.assoc)
qed

lemma xor_cancel_left: "(c :: 'a :: len word) XOR a = c XOR b \<Longrightarrow> a = b"
  using xor_cancel_right [of a c b] by (simp add: xor.commute)

lemma top_bit_crc_shift: "bit (crc_shift c) 31 \<longleftrightarrow> bit c 0"
proof -
  have "\<not> bit (drop_bit 1 c) 31"
    using bit_imp_le_length [of c 32] by (auto simp add: bit_drop_bit_eq)
  moreover have "bit crc_poly 31"
    by (simp add: crc_poly_def)
  ultimately show ?thesis
    by (simp add: crc_shift_def bit_xor_iff)
qed

lemma crc_shift_inj: "crc_shift a = crc_shift b \<Longrightarrow> a = b"
proof -
  assume eq: "crc_shift a = crc_shift b"
  then have b0: "bit a 0 \<longleftrightarrow> bit b 0"
    using top_bit_crc_shift [of a] top_bit_crc_shift [of b] by simp
  have d: "drop_bit 1 a = drop_bit 1 b"
  proof (cases "bit a 0")
    case True
    with b0 eq show ?thesis by (simp add: crc_shift_def xor_cancel_right)
  next
    case False
    with b0 eq show ?thesis by (simp add: crc_shift_def)
  qed
  show "a = b"
  proof (rule bit_eqI)
    fix n
    show "bit a n \<longleftrightarrow> bit b n"
    proof (cases n)
      case 0
      with b0 show ?thesis by simp
    next
      case (Suc m)
      have "bit (drop_bit 1 a) m \<longleftrightarrow> bit (drop_bit 1 b) m"
        by (simp only: d)
      then have "bit a (1 + m) \<longleftrightarrow> bit b (1 + m)"
        by (simp only: bit_drop_bit_eq o_def)
      with Suc show ?thesis by simp
    qed
  qed
qed

lemma crc_shift_pow_inj: "(crc_shift ^^ n) a = (crc_shift ^^ n) b \<Longrightarrow> a = b"
  by (induction n) (auto dest: crc_shift_inj)

lemma ucast_byte_inj: "(ucast (a :: byte) :: 32 word) = ucast b \<Longrightarrow> a = b"
proof -
  assume "(ucast a :: 32 word) = ucast b"
  then have "uint (ucast a :: 32 word) = uint (ucast b :: 32 word)" by simp
  then have "uint a = uint b"
    by (simp add: uint_up_ucast is_up)
  then show "a = b" by (rule word_uint_eqI)
qed

lemma crc_update_inj_state: "crc_update a x = crc_update b x \<Longrightarrow> a = b"
  by (auto simp add: crc_update_def dest!: crc_shift_pow_inj xor_cancel_right)

lemma crc_update_inj_byte: "crc_update c x = crc_update c y \<Longrightarrow> x = y"
  by (auto simp add: crc_update_def dest!: crc_shift_pow_inj xor_cancel_left ucast_byte_inj)

lemma foldl_crc_update_inj: "foldl crc_update a xs = foldl crc_update b xs \<Longrightarrow> a = b"
  by (induction xs arbitrary: a b) (auto dest: crc_update_inj_state)

lemma crc32_one_byte_changed:
  assumes "x \<noteq> y"
  shows "crc32 (pre @ x # suf) \<noteq> crc32 (pre @ y # suf)"
proof
  assume "crc32 (pre @ x # suf) = crc32 (pre @ y # suf)"
  then have "foldl crc_update (crc_update (foldl crc_update (- 1) pre) x) suf =
      foldl crc_update (crc_update (foldl crc_update (- 1) pre) y) suf"
    by (auto simp add: crc32_def dest: xor_cancel_right)
  then have "x = y"
    by (auto dest!: foldl_crc_update_inj crc_update_inj_byte)
  with assms show False by simp
qed

lemma flip_bit_changes:
  assumes "i < length payload" "k < 8"
  shows "crc32 (flip_payload_bit payload i k) \<noteq> crc32 payload"
proof -
  let ?x = "payload ! i XOR push_bit k 1"
  have "(push_bit k 1 :: byte) \<noteq> 0"
    using assms(2) by (simp add: push_bit_eq_0_iff) 
  then have ne: "?x \<noteq> payload ! i"
    by (metis xor.right_neutral xor_cancel_left)
  have a: "flip_payload_bit payload i k = take i payload @ ?x # drop (Suc i) payload"
    using assms(1) by (simp add: flip_payload_bit_def upd_conv_take_nth_drop)
  have b: "payload = take i payload @ payload ! i # drop (Suc i) payload"
    using assms(1) by (simp add: id_take_nth_drop)
  show ?thesis
    using crc32_one_byte_changed [OF ne, of "take i payload" "drop (Suc i) payload"] a b
    by simp
qed

lemma compute_checksum_flip:
  assumes "i < length payload" "k < 8"
  shows "compute_checksum (flip_payload_bit payload i k) \<noteq> compute_checksum payload"
  using flip_bit_changes [OF assms]
  by (auto simp add: compute_checksum_def binascii_crc32_def dest: signed_word_eqI)

subsection \<open>The checksum\<close>

lemma sint_mod_uint: "sint (w :: 32 word) mod 2 ^ 32 = uint w"
  using uint_sint [of w] by (simp add: take_bit_eq_mod)

text \<open>
  Claim C9, as stated, fails in its first half: \<open>compute_checksum\<close> does not return
  the CRC-32 as an unsigned 32-bit number. For the one-byte payload "a" the CRC-32 is
  \<open>0xE8B7BE43\<close>, and \<open>compute_checksum\<close> returns the negative number that has the same
  32 bits.
\<close>

theorem checksum_not_unsigned:
  "compute_checksum [97] = - 390611389 \<and> uint (crc32 [97]) = 3904355907 \<and>
   compute_checksum [97] \<noteq> uint (crc32 [97])"
  by code_simp

text \<open>
  Claim C9, amended. \<open>compute_checksum\<close> returns the standard CRC-32 of the payload
  read as a signed 32-bit integer (the same 32 bits: it is the unsigned value modulo
  \<open>2 ^ 32\<close>), which is what the formats \<open>'>Bi'\<close> of the encoder and \<open>'>i'\<close> of the parser
  expect. And when one bit of the payload of an encoded message is inverted, the parser,
  called with \<open>include_corrupt = True\<close>, yields the message with \<open>corrupt = True\<close>.
\<close>

theorem checksum_signed_and_detects_flip:
  assumes "i < length payload" "k < 8" "int (length payload) + 5 < 2 ^ 31"
  shows "compute_checksum payload = sint (crc32 payload) \<and>
     compute_checksum payload mod 2 ^ 32 = uint (crc32 payload) \<and>
     (\<exists>enc. encode_message payload = Inr enc \<and>
        parse_message_set self_include_corrupt (Some start)
          \<lparr>sdata = pre @ take 9 enc @ flip_payload_bit payload i k, spos = length pre\<rparr> True =
        [Rec3 (start + int (length pre) - 2) (flip_payload_bit payload i k) True])"
proof -
  let ?p = "flip_payload_bit payload i k"
  let ?cks = "be_bytes 4 (compute_checksum payload)"
  have len: "length ?p = length payload"
    by (simp add: flip_payload_bit_def)
  have enc: "encode_message payload = Inr (wire_message 0 ?cks payload)"
    by (rule encode_message_wire [OF assms(3)])
  have hdr: "take 9 (wire_message 0 ?cks payload) @ ?p = wire_message 0 ?cks ?p"
    by (simp add: wire_message_def len)
  have c: "\<forall>m \<in> set [(0, ?cks, ?p)]. complete m"
    using assms(3) by (simp add: complete_def len)
  have cor: "is_corrupt 0 ?cks ?p"
    using be_decode_signed [OF compute_checksum_range, of payload]
      compute_checksum_flip [OF assms(1,2)]
    by (simp add: is_corrupt_def Let_def)
  have "parse_loop start self_include_corrupt True
          \<lparr>sdata = pre @ wire_of [(0, ?cks, ?p)] @ [], spos = length pre\<rparr> =
        records_from (start + int (length pre) - 2) True [(0, ?cks, ?p)]"
    by (rule parse_complete_buffer [OF c]) simp
  then have par: "parse_message_set self_include_corrupt (Some start)
          \<lparr>sdata = pre @ take 9 (wire_message 0 ?cks payload) @ ?p, spos = length pre\<rparr> True =
        [Rec3 (start + int (length pre) - 2) ?p True]"
    by (simp add: parse_message_set_def hdr mk_record_def cor)
  have a: "compute_checksum payload = sint (crc32 payload)"
    by (simp add: compute_checksum_def binascii_crc32_def)
  have b: "compute_checksum payload mod 2 ^ 32 = uint (crc32 payload)"
    unfolding a by (rule sint_mod_uint)
  from a b enc par show ?thesis
    by blast
qed

theorem checksum_signed_and_detects_flip_witness:
  "compute_checksum [97] = sint (crc32 [97]) \<and>
   compute_checksum [97] mod 2 ^ 32 = uint (crc32 [97]) \<and>
   parse_message_set False (Some 100)
     \<lparr>sdata = [0, 0] @ [0, 0, 0, 6, 0, 232, 183, 190, 67] @ [96], spos = length [0 :: byte, 0]\<rparr> True =
   [Rec3 100 [96] True]"
proof -
  have h1: "0 < length [97 :: byte]" and h2: "(0 :: nat) < 8"
    and h3: "int (length [97 :: byte]) + 5 < 2 ^ 31"
    by simp_all
  have e: "encode_message [97] = Inr [0, 0, 0, 6, 0, 232, 183, 190, 67, 97]"
    by code_simp
  have f: "flip_payload_bit [97] 0 0 = [96]"
    by code_simp
  from checksum_signed_and_detects_flip [OF h1 h2 h3, of False 100 "[0, 0]"]
  obtain enc where 1: "compute_checksum [97] = sint (crc32 [97])"
    and 2: "compute_checksum [97] mod 2 ^ 32 = uint (crc32 [97])"
    and 3: "encode_message [97] = Inr enc"
    and 4: "parse_message_set False (Some 100)
          \<lparr>sdata = [0, 0] @ take 9 enc @ flip_payload_bit [97] 0 0, spos = length [0 :: byte, 0]\<rparr> True =
        [Rec3 (100 + int (length [0 :: byte, 0]) - 2) (flip_payload_bit [97] 0 0) True]"
    by blast
  from e 3 have "enc = [0, 0, 0, 6, 0, 232, 183, 190, 67, 97]"
    by simp
  with 4 f have p: "parse_message_set False (Some 100)
     \<lparr>sdata = [0, 0] @ [0, 0, 0, 6, 0, 232, 183, 190, 67] @ [96], spos = length [0 :: byte, 0]\<rparr> True =
     [Rec3 100 [96] True]"
    by simp
  from 1 2 p show ?thesis
    by (intro conjI)
qed

subsection \<open>One round trip\<close>

lemma read_response_ok:
  "read_response ([0, 0] @ body) = Inr \<lparr>sdata = [0, 0] @ body, spos = 2\<rparr>"
  by (simp add: read_response_def StringIO_def sio_read_def unpack_unsigned_def be_decode_def
      Let_def)

lemma read_response_code:
  assumes "0 < code" "code < 65536"
  shows "read_response (be_bytes 2 code @ body) = Inl (error_codes code)"
  using assms
  by (simp add: read_response_def StringIO_def sio_read_def unpack_unsigned_def
      be_decode_be_bytes Let_def)

lemma fetch_data:
  assumes "encode_utf8 topic = Inr topic'"
    and "fetch_request topic' offset (py_or part 0) (py_or max_size (k_max_size self)) = Inr (sz, req)"
    and "server w (trace w) req = Data ([0, 0] @ body)"
  shows "fetch self topic offset part max_size ic w =
     (Inr (parse_message_set (k_include_corrupt self) offset
             \<lparr>sdata = [0, 0] @ body, spos = 2\<rparr> ic),
      w\<lparr>trace := trace w @ [Request sz req]\<rparr>)"
  using assms
  by (simp add: fetch_def exchange_def read_fetch_response_def Let_def read_response_ok
      del: append.simps)

lemma fetch_raises:
  assumes "encode_utf8 topic = Inr topic'"
    and "fetch_request topic' offset (py_or part 0) (py_or max_size (k_max_size self)) = Inr (sz, req)"
    and "server w (trace w) req = Raises e"
  shows "fetch self topic offset part max_size ic w =
     (Inl e, w\<lparr>trace := trace w @ [Request sz req]\<rparr>)"
  using assms
  by (simp add: fetch_def exchange_def Let_def)

lemma fetch_no_offset:
  "fetch self topic None part max_size ic w =
     (Inl (if \<forall>b \<in> set topic. b < 128 then StructError else UnicodeError), w)"
  by (simp add: fetch_def encode_utf8_def fetch_request_def pack_Q_def pack_I_def pack_H_def
      pack_s_def pack_unsigned_def Let_def err_bind_def split: sum.splits)

lemma fetch_request_encodes:
  assumes "length topic < 65536"
    and "0 \<le> part" "part < 2 ^ 32"
    and "0 \<le> offset" "offset < 2 ^ 64"
    and "0 \<le> max_size" "max_size < 2 ^ 32"
  shows "fetch_request topic (Some offset) part max_size =
     Inr (be_bytes 4 (20 + int (length topic)),
          be_bytes 2 1 @ be_bytes 2 (int (length topic)) @ topic
          @ be_bytes 4 part @ be_bytes 8 offset @ be_bytes 4 max_size)"
  using assms
  by (simp add: fetch_request_def pack_I_def pack_H_def pack_Q_def pack_s_def
      pack_unsigned_def FETCH_REQUEST_def Let_def)

lemma offsets_request_encodes:
  assumes "length topic < 65536"
    and "0 \<le> part" "part < 2 ^ 32"
    and "- (2 ^ 63) \<le> time_val" "time_val < 2 ^ 63"
    and "0 \<le> max_offsets" "max_offsets < 2 ^ 32"
  shows "offsets_request topic time_val max_offsets part =
     Inr (be_bytes 4 (20 + int (length topic)),
          be_bytes 2 4 @ be_bytes 2 (int (length topic)) @ topic
          @ be_bytes 4 part @ be_bytes 8 time_val @ be_bytes 4 max_offsets)"
  using assms
  by (simp add: offsets_request_def pack_I_def pack_H_def pack_q_def pack_s_def
      pack_unsigned_def pack_signed_def OFFSETS_REQUEST_def Let_def)

subsection \<open>Which flag lets a short payload through\<close>

text \<open>
  Claim C5 says that the \<open>include_corrupt\<close> argument of \<open>fetch\<close> decides what happens to
  a final message whose payload is shorter than its length field declares. The parser
  tests \<open>self.include_corrupt\<close>, the attribute set by the constructor, at that point
  (and the argument only when it builds the record): \<open>parse_short_payload_buffer\<close>
  above. So with a client built with the default \<open>include_corrupt = False\<close>, a fetch
  called with \<open>include_corrupt = True\<close> drops the short message, and with a client
  built with \<open>include_corrupt = True\<close>, a fetch called with \<open>include_corrupt = False\<close>
  yields it, as a pair without a flag.
\<close>

theorem short_payload_follows_attribute_not_argument:
  "fst (fetch (kafka_init None None None False) [116] (Some 100) None None True stalled_world)
     = Inr [] \<and>
   fst (fetch (kafka_init None None None True) [116] (Some 100) None None False stalled_world)
     = Inr [Rec2 100 [97]]"
proof -
  have u: "encode_utf8 [116] = Inr [116]"
    by (simp add: encode_utf8_def)
  have r: "fetch_request [116] (Some 100) (py_or None 0)
        (py_or None (k_max_size (kafka_init None None None c))) =
      Inr (be_bytes 4 (20 + int (length [116 :: byte])),
           be_bytes 2 1 @ be_bytes 2 (int (length [116 :: byte])) @ [116]
           @ be_bytes 4 0 @ be_bytes 8 100 @ be_bytes 4 1048576)" for c
  proof -
    have a: "py_or None 0 = 0"
      and b: "py_or None (k_max_size (kafka_init None None None c)) = 1048576"
      by (simp_all add: py_or_def kafka_init_def DEFAULT_MAX_SIZE_def)
    show ?thesis
      unfolding a b by (rule fetch_request_encodes) simp_all
  qed
  have s: "server stalled_world (trace stalled_world) req =
      Data ([0, 0] @ short_message 8 0 [1, 2, 3, 4] [97])" for req
    by (simp add: stalled_world_def)
  have p: "parse_loop 100 sic ic
        \<lparr>sdata = [0, 0] @ wire_of [] @ short_message 8 0 [1, 2, 3, 4] [97], spos = length [0 :: byte, 0]\<rparr> =
      records_from (100 + int (length [0 :: byte, 0]) - 2) ic [] @
      (if sic then [mk_record ic (100 + int (length [0 :: byte, 0]) + int (length (wire_of [])) - 2) [97]
                      (is_corrupt 0 [1, 2, 3, 4] [97])]
       else [])" for sic ic
    by (rule parse_short_payload_buffer) simp_all
  have ic: "k_include_corrupt (kafka_init None None None c) = c" for c
    by (simp add: kafka_init_def)
  have f: "fst (fetch (kafka_init None None None c) [116] (Some 100) None None a stalled_world) =
      Inr (parse_loop 100 c a
             \<lparr>sdata = [0, 0] @ wire_of [] @ short_message 8 0 [1, 2, 3, 4] [97],
                spos = length [0 :: byte, 0]\<rparr>)" for c a
    by (simp add: fetch_data [OF u r s] parse_message_set_def ic numeral_2_eq_2)
  show ?thesis
    unfolding f p by (simp add: mk_record_def)
qed

subsection \<open>The offsets response\<close>

lemma read_offsets_list:
  assumes "\<forall>off \<in> set offs. 0 \<le> off \<and> off < 2 ^ 64"
  shows "read_offsets (length offs)
           \<lparr>sdata = pre @ concat (map (be_bytes 8) offs) @ rest, spos = length pre\<rparr> = Inr offs"
  using assms
proof (induction offs arbitrary: pre)
  case Nil
  show ?case by simp
next
  case (Cons off offs)
  let ?b = "\<lparr>sdata = pre @ be_bytes 8 off @ concat (map (be_bytes 8) offs) @ rest, spos = length pre\<rparr>"
  have r: "sio_read ?b 8 = (be_bytes 8 off, ?b\<lparr>spos := length pre + length (be_bytes 8 off)\<rparr>)"
    by (rule sio_read_exact [where rest = "concat (map (be_bytes 8) offs) @ rest"]) simp_all
  have d: "be_decode (be_bytes 8 off) = off"
    using Cons.prems by (simp add: be_decode_be_bytes)
  have ih: "read_offsets (length offs)
      \<lparr>sdata = (pre @ be_bytes 8 off) @ concat (map (be_bytes 8) offs) @ rest,
         spos = length (pre @ be_bytes 8 off)\<rparr> = Inr offs"
    using Cons.prems by (intro Cons.IH) simp
  show ?case
    using ih by (simp add: r unpack_unsigned_def d)
qed

lemma read_offset_response_list:
  assumes "\<forall>off \<in> set offs. 0 \<le> off \<and> off < 2 ^ 64" and "int (length offs) < 2 ^ 32"
  shows "read_offset_response
           \<lparr>sdata = [0, 0] @ be_bytes 4 (int (length offs)) @ concat (map (be_bytes 8) offs) @ rest,
              spos = 2\<rparr> = Inr offs"
proof -
  let ?b = "\<lparr>sdata = 0 # 0 # be_bytes 4 (int (length offs)) @ concat (map (be_bytes 8) offs) @ rest,
              spos = 2\<rparr>"
  have r: "sio_read ?b 4 = (be_bytes 4 (int (length offs)), ?b\<lparr>spos := length [0 :: byte, 0] + length (be_bytes 4 (int (length offs)))\<rparr>)"
    by (rule sio_read_exact [where rest = "concat (map (be_bytes 8) offs) @ rest"]) simp_all
  have d: "be_decode (be_bytes 4 (int (length offs))) = int (length offs)"
    using assms(2) by (simp add: be_decode_be_bytes)
  have l: "read_offsets (length offs)
      \<lparr>sdata = ([0, 0] @ be_bytes 4 (int (length offs))) @ concat (map (be_bytes 8) offs) @ rest,
         spos = length ([0, 0] @ be_bytes 4 (int (length offs)))\<rparr> = Inr offs"
    by (rule read_offsets_list [OF assms(1)])
  show ?thesis
    using l by (simp add: read_offset_response_def r unpack_unsigned_def d)
qed

lemma offsets_data:
  assumes "offsets_request topic time_val max_offsets (py_or part 0) = Inr (sz, req)"
    and "server w (trace w) req = Data (offsets_response offs rest)"
    and "\<forall>off \<in> set offs. 0 \<le> off \<and> off < 2 ^ 64" and "int (length offs) < 2 ^ 32"
  shows "offsets self topic time_val max_offsets part w =
     (Inr offs, w\<lparr>trace := trace w @ [Request sz req]\<rparr>)"
  using assms(1,2) read_offset_response_list [OF assms(3,4), of rest]
  by (simp add: offsets_def exchange_def Let_def offsets_response_def read_response_ok
      del: append.simps)

text \<open>
  Claim C10. When the server answers the offsets request with a list of offsets (error
  code 0, the count, then the offsets), \<open>earliest_offset\<close> and \<open>latest_offset\<close> return
  the first offset of the list; when the count is zero, both fail with \<open>IndexError\<close>,
  the error of the subscript \<open>[0]\<close> on an empty list, and return no offset.
\<close>

theorem offset_lookups_take_first:
  assumes "offsets_request (p_topic self) EARLIEST_OFFSET 1 (py_or (p_partition self) 0)
             = Inr (sz_e, req_e)"
    and "offsets_request (p_topic self) LATEST_OFFSET 1 (py_or (p_partition self) 0)
             = Inr (sz_l, req_l)"
    and "server w (trace w) req_e = Data (offsets_response offs rest)"
    and "server w (trace w) req_l = Data (offsets_response offs rest)"
    and "\<forall>off \<in> set offs. 0 \<le> off \<and> off < 2 ^ 64" and "int (length offs) < 2 ^ 32"
  shows "earliest_offset self w =
       (case offs of [] \<Rightarrow> Inl IndexError | first # others \<Rightarrow> Inr first,
        w\<lparr>trace := trace w @ [Request sz_e req_e]\<rparr>) \<and>
     latest_offset self w =
       (case offs of [] \<Rightarrow> Inl IndexError | first # others \<Rightarrow> Inr first,
        w\<lparr>trace := trace w @ [Request sz_l req_l]\<rparr>)"
  by (simp add: earliest_offset_def latest_offset_def first_of_def
      offsets_data [OF assms(1) assms(3) assms(5) assms(6)]
      offsets_data [OF assms(2) assms(4) assms(5) assms(6)])


theorem offset_lookups_take_first_witness:
  "fst (earliest_offset topic_t (offsets_world [])) = Inl IndexError \<and>
   fst (latest_offset topic_t (offsets_world [])) = Inl IndexError \<and>
   fst (earliest_offset topic_t (offsets_world [100, 50])) = Inr 100 \<and>
   fst (latest_offset topic_t (offsets_world [100, 50])) = Inr 100"
proof -
  have e: "offsets_request (p_topic topic_t) EARLIEST_OFFSET 1 (py_or (p_partition topic_t) 0) =
      Inr (be_bytes 4 (20 + int (length [116 :: byte])),
           be_bytes 2 4 @ be_bytes 2 (int (length [116 :: byte])) @ [116]
           @ be_bytes 4 0 @ be_bytes 8 (- 2) @ be_bytes 4 1)"
  proof -
    have a: "p_topic topic_t = [116]" "py_or (p_partition topic_t) 0 = 0"
      "EARLIEST_OFFSET = - 2"
      by (simp_all add: topic_t_def py_or_def EARLIEST_OFFSET_def)
    show ?thesis
      unfolding a by (rule offsets_request_encodes) simp_all
  qed
  have l: "offsets_request (p_topic topic_t) LATEST_OFFSET 1 (py_or (p_partition topic_t) 0) =
      Inr (be_bytes 4 (20 + int (length [116 :: byte])),
           be_bytes 2 4 @ be_bytes 2 (int (length [116 :: byte])) @ [116]
           @ be_bytes 4 0 @ be_bytes 8 (- 1) @ be_bytes 4 1)"
  proof -
    have a: "p_topic topic_t = [116]" "py_or (p_partition topic_t) 0 = 0"
      "LATEST_OFFSET = - 1"
      by (simp_all add: topic_t_def py_or_def LATEST_OFFSET_def)
    show ?thesis
      unfolding a by (rule offsets_request_encodes) simp_all
  qed
  have s: "server (offsets_world offs) (trace (offsets_world offs)) req =
      Data (offsets_response offs [])" for offs req
    by (simp add: offsets_world_def)
  have r1: "\<forall>off \<in> set ([] :: int list). 0 \<le> off \<and> off < 2 ^ 64"
    and r2: "int (length ([] :: int list)) < 2 ^ 32"
    and r3: "\<forall>off \<in> set [100, 50 :: int]. 0 \<le> off \<and> off < 2 ^ 64"
    and r4: "int (length [100, 50 :: int]) < 2 ^ 32"
    by simp_all
  from offset_lookups_take_first [OF e l s s r1 r2] offset_lookups_take_first [OF e l s s r3 r4]
  show ?thesis by simp
qed

end
